theory Spec2Isabelle
  imports
    Complex_Main
    "HOL-Library.AList"
    "HOL-Library.Char_ord"
    "HOL-Library.List_Lexorder"
    "HOL-Library.Log_Nat"
    "HOL-Library.Product_Lexorder"
begin

section \<open>The study schedule planner: data model\<close>

text \<open>
  The allocation engine is the function \<open>generate_schedule\<close> of \<open>app.py\<close>.
  Conventions of the embedding:
  \<^item> A Python float is the rational number it denotes (\<open>rat\<close>); overflow, infinities
    and NaN are outside the model. A float operation yields its exact result rounded to a
    float. That rounding is the parameter \<open>fl\<close> of the model, applied where the source
    computes a value that need not be representable: the product of line 88 and the
    quotient and product of line 93. The properties below hold for every \<open>fl\<close>, unless
    they say what they need of it; \<open>binary64\<close> is the rounding of Python's floats, and
    the closed examples are evaluated with it.
  \<^item> The operations of the allocator (lines 110 to 121) are written without rounding:
    \<open>round(x * 4) / 4.0\<close> is exact on floats, and the operands of the two subtractions
    are multiples of a quarter hour, or \<open>hours_left\<close> and an allocation that differs from
    it by no more than itself, whose difference is representable.
  \<^item> A calendar date is its proleptic ordinal (\<open>date.toordinal()\<close>), an \<open>int\<close>; the
    string \<open>day.strftime("%Y-%m-%d")\<close> of a row is represented by that ordinal.
  \<^item> \<open>date.today()\<close>, read from the clock by the source, is the explicit first argument.
  \<^item> A Python \<open>dict\<close> is an association list in insertion order; assignment to an
    existing key keeps its position (\<open>AList.update\<close>).
  \<^item> The pandas calls are modelled by what they compute here: \<open>DataFrame(rows)\<close> is the
    list of rows, \<open>df.empty\<close> is "no rows", and \<open>groupby(["Date", "Topic"]).sum()\<close> is
    one row per distinct key, in ascending key order, with the hours summed.
\<close>

record topic =
  name :: string
  difficulty :: int
  priority :: bool

record sched_row =
  Date :: int
  Topic :: string
  Hours :: rat

type_synonym demand_map = "(string \<times> rat) list"

record alloc_state =
  hours_left :: rat
  remaining_hours :: demand_map
  schedule_rows :: "sched_row list"

text \<open>
  The exceptions \<open>generate_schedule\<close> can raise: the two \<open>ValueError\<close>s of lines 68 and
  78, and the two \<open>ZeroDivisionError\<close>s of the float division of line 93 and of the
  integer modulo of line 133.
\<close>

datatype error =
    ExamDateNotInFuture
  | NoStudyDays
  | FloatDivisionByZero
  | IntegerModuloByZero

datatype 's flow = Break 's | Next 's

section \<open>Rounding\<close>

text \<open>
  Python 3's \<open>round(x)\<close> on a float: the nearest integer, a tie going to the even
  neighbour.
\<close>

definition py_round :: "rat \<Rightarrow> int" where
  "py_round x =
     (let f = \<lfloor>x\<rfloor>; r = x - of_int f
      in if r < 1 / 2 then f
         else if 1 / 2 < r then f + 1
         else if even f then f else f + 1)"

text \<open>
  The rounding the specification describes for the entitlement: value times two, rounded
  half-up to an integer. It is used only to compare the specification with the code.
\<close>

definition spec_round_half_up :: "rat \<Rightarrow> int" where
  "spec_round_half_up x = \<lfloor>x + 1 / 2\<rfloor>"

definition is_quarter :: "rat \<Rightarrow> bool" where
  "is_quarter x = (of_int \<lfloor>x * 4\<rfloor> = x * 4)"

text \<open>
  Rounding to the nearest binary64 float, ties to the even significand, for values in
  the normal range: \<open>binary_exponent x\<close> is the \<open>e\<close> with \<open>2 ^ e \<le> x < 2 ^ (e + 1)\<close> for a
  positive \<open>x\<close>, and the significand has 53 bits.
\<close>

definition binary_exponent :: "rat \<Rightarrow> int" where
  "binary_exponent x =
     (let (p, q) = quotient_of x; k = bitlen p - bitlen q
      in if power_int 2 k \<le> x then k else k - 1)"

definition round_pos :: "rat \<Rightarrow> rat" where
  "round_pos x =
     (let e = binary_exponent x
      in of_int (py_round (x * power_int 2 (52 - e))) * power_int 2 (e - 52))"

definition binary64 :: "rat \<Rightarrow> rat" where
  "binary64 x = (if x = 0 then 0 else if 0 < x then round_pos x else - round_pos (- x))"

text \<open>
  What the priority property needs of the rounding of float results: it is monotone and
  leaves zero unchanged, as every rounding to nearest is.
\<close>

definition rounding :: "(rat \<Rightarrow> rat) \<Rightarrow> bool" where
  "rounding fl = ((\<forall>x y. x \<le> y \<longrightarrow> fl x \<le> fl y) \<and> fl 0 = 0)"

section \<open>The study window (lines 66 to 78)\<close>

definition weekday :: "int \<Rightarrow> int" where
  "weekday d = (d + 6) mod 7"

function build_study_days :: "int \<Rightarrow> int \<Rightarrow> bool \<Rightarrow> int list" where
  "build_study_days d exam_date include_weekends =
     (if d < exam_date
      then (if include_weekends \<or> weekday d < 5 then [d] else [])
             @ build_study_days (d + 1) exam_date include_weekends
      else [])"
  by pat_completeness auto
termination
  by (relation "measure (\<lambda>(d, e, w). nat (e - d))") auto

declare build_study_days.simps [simp del]

section \<open>The demand model (lines 80 to 98)\<close>

definition weight :: "topic \<Rightarrow> rat" where
  "weight t =
     (let w = 1 * of_int (difficulty t)
      in if priority t then w * 2 else w)"

text \<open>
  The value of \<open>allocated\<close> after lines 93 to 97, for a non-zero \<open>sum_w\<close>. The division
  and the multiplication of line 93 are float operations: each yields its exact result
  rounded to a float by \<open>fl\<close>. Doubling, \<open>round\<close> and halving are exact on floats.
\<close>

definition entitlement :: "(rat \<Rightarrow> rat) \<Rightarrow> rat \<Rightarrow> rat \<Rightarrow> rat \<Rightarrow> rat" where
  "entitlement fl w sum_w total_available_hours =
     (let allocated = fl (fl (w / sum_w) * total_available_hours);
          allocated = of_int (py_round (allocated * 2)) / 2
      in if allocated < 1 / 2 then 1 / 2 else allocated)"

fun demand_loop ::
  "(rat \<Rightarrow> rat) \<Rightarrow> (topic \<times> rat) list \<Rightarrow> rat \<Rightarrow> rat \<Rightarrow> demand_map \<Rightarrow> error + demand_map" where
  "demand_loop fl [] sum_w total_available_hours remaining = Inr remaining"
| "demand_loop fl ((t, w) # rest) sum_w total_available_hours remaining =
     (if sum_w = 0 then Inl FloatDivisionByZero
      else demand_loop fl rest sum_w total_available_hours
             (AList.update (name t) (entitlement fl w sum_w total_available_hours) remaining))"

section \<open>The day allocator (lines 100 to 124)\<close>

text \<open>
  \<open>max(items, key=lambda x: x[1])\<close> keeps the first item whose value is maximal: a later
  item replaces the current best only when it is strictly greater.
\<close>

fun max_item :: "string \<times> rat \<Rightarrow> demand_map \<Rightarrow> string \<times> rat" where
  "max_item best [] = best"
| "max_item best (x # xs) = max_item (if snd best < snd x then x else best) xs"

definition loop_test :: "alloc_state \<Rightarrow> bool" where
  "loop_test s =
     (1 / 4 \<le> hours_left s \<and> list_ex (\<lambda>h. 249 / 1000 < h) (map snd (remaining_hours s)))"

text \<open>
  One pass through the body of the \<open>while\<close> loop, entered with the loop test true.
  \<open>Break\<close> carries the state in which the loop is left, \<open>Next\<close> the state with which
  the test is evaluated again. The first two \<open>Break\<close> branches stand for \<open>max\<close> of an
  empty dict and for a missing key; neither is reachable when the loop test holds
  (lemmas \<open>loop_test_nonempty\<close> and \<open>max_item_key\<close>).
\<close>

definition loop_body :: "int \<Rightarrow> alloc_state \<Rightarrow> alloc_state flow" where
  "loop_body day s =
     (case remaining_hours s of
        [] \<Rightarrow> Break s
      | x # xs \<Rightarrow>
          let topic = fst (max_item x xs) in
          (case map_of (remaining_hours s) topic of
             None \<Rightarrow> Break s
           | Some r \<Rightarrow>
               if r < 1 / 4 then Break s
               else
                 let alloc = min r (hours_left s);
                     alloc = of_int (py_round (alloc * 4)) / 4
                 in if alloc \<le> 0 then Break s
                    else
                      let s' = \<lparr>hours_left = of_int (py_round ((hours_left s - alloc) * 4)) / 4,
                                remaining_hours =
                                  AList.update topic (of_int (py_round ((r - alloc) * 4)) / 4)
                                    (remaining_hours s),
                                schedule_rows =
                                  schedule_rows s @ [\<lparr>Date = day, Topic = topic, Hours = alloc\<rparr>]\<rparr>
                      in if hours_left s' < 1 / 4 then Break s' else Next s'))"

partial_function (option) while_loop :: "int \<Rightarrow> alloc_state \<Rightarrow> alloc_state option" where
  "while_loop day s =
     (if loop_test s
      then (case loop_body day s of
              Break s' \<Rightarrow> Some s'
            | Next s' \<Rightarrow> while_loop day s')
      else Some s)"

declare while_loop.simps [code]

fun for_days ::
  "int list \<Rightarrow> rat \<Rightarrow> demand_map \<Rightarrow> sched_row list \<Rightarrow> (demand_map \<times> sched_row list) option" where
  "for_days [] daily_hours remaining rows = Some (remaining, rows)"
| "for_days (day # days) daily_hours remaining rows =
     (case while_loop day
             \<lparr>hours_left = daily_hours, remaining_hours = remaining, schedule_rows = rows\<rparr> of
        None \<Rightarrow> None
      | Some s \<Rightarrow> for_days days daily_hours (remaining_hours s) (schedule_rows s))"

section \<open>Fallback and aggregation (lines 126 to 139)\<close>

fun fallback_loop ::
  "int list \<Rightarrow> string list \<Rightarrow> nat \<Rightarrow> rat \<Rightarrow> sched_row list \<Rightarrow> error + sched_row list" where
  "fallback_loop [] topic_names ti daily_hours rows = Inr rows"
| "fallback_loop (day # days) topic_names ti daily_hours rows =
     (if length topic_names = 0 then Inl IntegerModuloByZero
      else fallback_loop days topic_names (ti + 1) daily_hours
             (rows @ [\<lparr>Date = day, Topic = topic_names ! (ti mod length topic_names),
                        Hours = daily_hours\<rparr>]))"

definition row_key :: "sched_row \<Rightarrow> int \<times> string" where
  "row_key r = (Date r, Topic r)"

definition aggregate :: "sched_row list \<Rightarrow> sched_row list" where
  "aggregate rows =
     map (\<lambda>k. \<lparr>Date = fst k, Topic = snd k,
               Hours = sum_list (map Hours (filter (\<lambda>r. row_key r = k) rows))\<rparr>)
       (sort (remdups (map row_key rows)))"

section \<open>The entry point\<close>

text \<open>
  The result is \<open>None\<close> if the allocation does not return, \<open>Some (Inl e)\<close> if it raises
  \<open>e\<close>, and \<open>Some (Inr (df, remaining_hours, total_available_hours))\<close> if it returns.
\<close>

definition generate_schedule ::
  "(rat \<Rightarrow> rat) \<Rightarrow> int \<Rightarrow> topic list \<Rightarrow> int \<Rightarrow> rat \<Rightarrow> bool \<Rightarrow>
     (error + sched_row list \<times> demand_map \<times> rat) option" where
  "generate_schedule fl today topics exam_date daily_hours include_weekends =
     (if exam_date \<le> today then Some (Inl ExamDateNotInFuture)
      else
        let study_days = build_study_days today exam_date include_weekends;
            total_days = length study_days
        in if total_days = 0 then Some (Inl NoStudyDays)
           else
             let weights = map weight topics;
                 sum_w = sum_list weights;
                 total_available_hours = fl (of_nat total_days * daily_hours)
             in (case demand_loop fl (zip topics weights) sum_w total_available_hours [] of
                   Inl e \<Rightarrow> Some (Inl e)
                 | Inr remaining \<Rightarrow>
                     (case for_days study_days daily_hours remaining [] of
                        None \<Rightarrow> None
                      | Some (remaining', rows) \<Rightarrow>
                          if rows = []
                          then (case fallback_loop study_days (map fst remaining') 0
                                       daily_hours [] of
                                  Inl e \<Rightarrow> Some (Inl e)
                                | Inr rows' \<Rightarrow>
                                    Some (Inr (aggregate rows', remaining',
                                               total_available_hours)))
                          else Some (Inr (aggregate rows, remaining',
                                          total_available_hours)))))"

section \<open>Notions used to state the properties\<close>

text \<open>The state carried by the outcome of one pass through the loop body.\<close>

fun state_of :: "'s flow \<Rightarrow> 's" where
  "state_of (Break s) = s"
| "state_of (Next s) = s"

text \<open>Every entry of the demand map is a whole number of quarter hours.\<close>

definition quarters :: "demand_map \<Rightarrow> bool" where
  "quarters remaining = list_all (\<lambda>h. is_quarter h) (map snd remaining)"

text \<open>
  The demand map that \<open>generate_schedule\<close> builds in lines 91 to 98, as a function of the
  topics and of \<open>total_available_hours\<close>.
\<close>

definition initial_demand :: "(rat \<Rightarrow> rat) \<Rightarrow> topic list \<Rightarrow> rat \<Rightarrow> error + demand_map" where
  "initial_demand fl topics total_available_hours =
     demand_loop fl (zip topics (map weight topics)) (sum_list (map weight topics))
       total_available_hours []"





section \<open>Errors raised by the entry point\<close>

lemma while_loop_no_topics:
  "while_loop day \<lparr>hours_left = h, remaining_hours = [], schedule_rows = rows\<rparr>
     = Some \<lparr>hours_left = h, remaining_hours = [], schedule_rows = rows\<rparr>"
  by (subst while_loop.simps) (simp add: loop_test_def)

lemma for_days_no_topics: "for_days days d [] rows = Some ([], rows)"
  by (induction days arbitrary: rows) (simp_all add: while_loop_no_topics)

lemma fallback_loop_no_names:
  "days \<noteq> [] \<Longrightarrow> fallback_loop days [] ti d rows = Inl IntegerModuloByZero"
  by (cases days) simp_all

lemma demand_loop_zero_sum:
  "tws \<noteq> [] \<Longrightarrow> demand_loop fl tws 0 tot remaining = Inl FloatDivisionByZero"
  by (cases tws) auto

text \<open>
  Claim C10. With an empty topic list and a non-empty study window, the greedy loop
  emits no rows and leaves the empty demand map, and the fallback then raises the
  \<open>ZeroDivisionError\<close> of \<open>ti % len(topic_names)\<close>: no schedule is returned and neither
  of the two descriptive \<open>ValueError\<close>s is raised.
\<close>

theorem empty_topics_modulo_by_zero:
  assumes "today < exam_date"
    and "build_study_days today exam_date include_weekends \<noteq> []"
  shows "for_days (build_study_days today exam_date include_weekends) daily_hours [] []
           = Some ([], [])
       \<and> generate_schedule fl today [] exam_date daily_hours include_weekends
           = Some (Inl IntegerModuloByZero)"
  using assms
  by (simp add: generate_schedule_def for_days_no_topics fallback_loop_no_names)

theorem empty_topics_modulo_by_zero_witness:
  "(1::int) < 2 \<and> build_study_days 1 2 True \<noteq> []
   \<and> for_days (build_study_days 1 2 True) 3 [] [] = Some ([], [])
   \<and> generate_schedule binary64 1 [] 2 3 True = Some (Inl IntegerModuloByZero)"
  using empty_topics_modulo_by_zero [of 1 2 True 3 binary64]
  by (simp add: build_study_days.simps)

text \<open>
  Claim C2, as stated, fails: the source has no guard before the division of line 93.
  A single topic of difficulty 0 has weight sum zero, and the call ends in the
  \<open>ZeroDivisionError\<close> of the float division itself.
\<close>

theorem zero_weights_counterexample:
  "sum_list (map weight [\<lparr>name = ''A'', difficulty = 0, priority = False\<rparr>]) = 0
   \<and> generate_schedule binary64 1 [\<lparr>name = ''A'', difficulty = 0, priority = False\<rparr>] 2 3 True
       = Some (Inl FloatDivisionByZero)"
  by code_simp

text \<open>
  Claim C2, amended. If the weights of a non-empty topic list sum to zero and the study
  window is valid and non-empty, \<open>generate_schedule\<close> raises the \<open>ZeroDivisionError\<close>
  of the proportional-split division: the division is attempted, nothing guards it.
\<close>

theorem zero_weights_float_division:
  assumes "topics \<noteq> []"
    and "sum_list (map weight topics) = 0"
    and "today < exam_date"
    and "build_study_days today exam_date include_weekends \<noteq> []"
  shows "generate_schedule fl today topics exam_date daily_hours include_weekends
           = Some (Inl FloatDivisionByZero)"
proof -
  from assms(1) have "zip topics (map weight topics) \<noteq> []"
    by (cases topics) simp_all
  then have "demand_loop fl (zip topics (map weight topics)) 0 tot []
               = Inl FloatDivisionByZero" for tot
    by (rule demand_loop_zero_sum)
  with assms(2-4) show ?thesis
    by (simp add: generate_schedule_def)
qed

theorem zero_weights_float_division_witness:
  "[\<lparr>name = ''A'', difficulty = 0, priority = True\<rparr>] \<noteq> []
   \<and> sum_list (map weight [\<lparr>name = ''A'', difficulty = 0, priority = True\<rparr>]) = 0
   \<and> (5::int) < 7 \<and> build_study_days 5 7 False \<noteq> []
   \<and> generate_schedule binary64 5 [\<lparr>name = ''A'', difficulty = 0, priority = True\<rparr>] 7 2 False
       = Some (Inl FloatDivisionByZero)"
  using zero_weights_float_division
          [of "[\<lparr>name = ''A'', difficulty = 0, priority = True\<rparr>]" 5 7 False binary64 2]
  by (simp add: build_study_days.simps weight_def weekday_def)

section \<open>Properties of the rounding\<close>

lemma py_round_of_int: "py_round (of_int n) = n"
  by (simp add: py_round_def)

lemma floor_bounds:
  fixes x :: rat
  shows "of_int \<lfloor>x\<rfloor> \<le> x" and "x < of_int \<lfloor>x\<rfloor> + 1"
  by linarith+

lemma py_round_cases:
  obtains (down) "x - of_int \<lfloor>x\<rfloor> < 1 / 2" and "py_round x = \<lfloor>x\<rfloor>"
  | (up) "1 / 2 < x - of_int \<lfloor>x\<rfloor>" and "py_round x = \<lfloor>x\<rfloor> + 1"
  | (tie) "x - of_int \<lfloor>x\<rfloor> = 1 / 2"
      and "py_round x = (if even \<lfloor>x\<rfloor> then \<lfloor>x\<rfloor> else \<lfloor>x\<rfloor> + 1)"
proof -
  consider "x - of_int \<lfloor>x\<rfloor> < 1 / 2" | "1 / 2 < x - of_int \<lfloor>x\<rfloor>"
    | "x - of_int \<lfloor>x\<rfloor> = 1 / 2" by linarith
  then show thesis
  proof cases
    case 1
    then have "py_round x = \<lfloor>x\<rfloor>" by (simp add: py_round_def Let_def)
    with 1 show thesis by (rule down)
  next
    case 2
    then have "py_round x = \<lfloor>x\<rfloor> + 1" by (simp add: py_round_def Let_def)
    with 2 show thesis by (rule up)
  next
    case 3
    then have "py_round x = (if even \<lfloor>x\<rfloor> then \<lfloor>x\<rfloor> else \<lfloor>x\<rfloor> + 1)"
      by (simp add: py_round_def Let_def)
    with 3 show thesis by (rule tie)
  qed
qed

lemma py_round_upper: "of_int (py_round x) \<le> x + 1 / 2"
proof (cases x rule: py_round_cases)
  case down
  then have "of_int (py_round x) = (of_int \<lfloor>x\<rfloor> :: rat)" by simp
  with floor_bounds [of x] show ?thesis by linarith
next
  case up
  then have "of_int (py_round x) = (of_int \<lfloor>x\<rfloor> + 1 :: rat)" by simp
  with up show ?thesis by linarith
next
  case tie
  then have "of_int (py_round x) \<le> (of_int \<lfloor>x\<rfloor> + 1 :: rat)" by simp
  with tie show ?thesis by linarith
qed

lemma py_round_lower: "x - 1 / 2 \<le> of_int (py_round x)"
proof (cases x rule: py_round_cases)
  case down
  then have "of_int (py_round x) = (of_int \<lfloor>x\<rfloor> :: rat)" by simp
  with down show ?thesis by linarith
next
  case up
  then have "of_int (py_round x) = (of_int \<lfloor>x\<rfloor> + 1 :: rat)" by simp
  with floor_bounds [of x] show ?thesis by linarith
next
  case tie
  then have "(of_int \<lfloor>x\<rfloor> :: rat) \<le> of_int (py_round x)" by simp
  with tie show ?thesis by linarith
qed

lemma py_round_ge_floor: "\<lfloor>x\<rfloor> \<le> py_round x"
  by (simp add: py_round_def Let_def)

lemma py_round_le_floor: "py_round x \<le> \<lfloor>x\<rfloor> + 1"
  by (simp add: py_round_def Let_def)

lemma py_round_ge_int: "of_int n \<le> x \<Longrightarrow> n \<le> py_round x"
proof -
  assume "of_int n \<le> x"
  then have "n \<le> \<lfloor>x\<rfloor>" by (simp add: le_floor_iff)
  with py_round_ge_floor [of x] show ?thesis by simp
qed

lemma py_round_le_int: "x \<le> of_int n \<Longrightarrow> py_round x \<le> n"
proof (cases "x = of_int n")
  case True
  then show ?thesis by (simp add: py_round_of_int)
next
  case False
  assume "x \<le> of_int n"
  with False have "x < of_int n" by simp
  then have "\<lfloor>x\<rfloor> < n" by (simp add: floor_less_iff)
  with py_round_le_floor [of x] show ?thesis by simp
qed

lemma py_round_nonneg: "- (1 / 2) \<le> x \<Longrightarrow> 0 \<le> py_round x"
proof (cases "0 \<le> x")
  case True
  then show ?thesis using py_round_ge_int [of 0 x] by simp
next
  case False
  assume a: "- (1 / 2) \<le> x"
  from False a have f: "\<lfloor>x\<rfloor> = - 1" by (simp add: floor_eq_iff)
  show ?thesis
  proof (cases x rule: py_round_cases)
    case down
    with f a have False by simp
    then show ?thesis ..
  next
    case up
    with f show ?thesis by simp
  next
    case tie
    with f show ?thesis by simp
  qed
qed

lemma py_round_mono: "x \<le> y \<Longrightarrow> py_round x \<le> py_round y"
proof -
  assume xy: "x \<le> y"
  then have fl: "\<lfloor>x\<rfloor> \<le> \<lfloor>y\<rfloor>" by (rule floor_mono)
  show ?thesis
  proof (cases "\<lfloor>x\<rfloor> = \<lfloor>y\<rfloor>")
    case True
    with xy have "x - of_int \<lfloor>x\<rfloor> \<le> y - of_int \<lfloor>y\<rfloor>" by simp
    with True show ?thesis by (auto simp add: py_round_def Let_def)
  next
    case False
    with fl have "\<lfloor>x\<rfloor> + 1 \<le> \<lfloor>y\<rfloor>" by simp
    with py_round_le_floor [of x] py_round_ge_floor [of y] show ?thesis by simp
  qed
qed

lemma py_round_tie_even:
  assumes "\<bar>of_int (py_round x) - x\<bar> = 1 / 2"
  shows "even (py_round x)"
proof (cases x rule: py_round_cases)
  case down
  then have "of_int (py_round x) = (of_int \<lfloor>x\<rfloor> :: rat)" by simp
  with assms down floor_bounds [of x] have False by linarith
  then show ?thesis ..
next
  case up
  then have "of_int (py_round x) = (of_int \<lfloor>x\<rfloor> + 1 :: rat)" by simp
  with assms up floor_bounds [of x] have False by linarith
  then show ?thesis ..
next
  case tie
  then show ?thesis by simp
qed

lemma is_quarter_iff: "is_quarter x \<longleftrightarrow> (\<exists>n. x = of_int n / 4)"
proof
  assume "is_quarter x"
  then have "of_int \<lfloor>x * 4\<rfloor> = x * 4" unfolding is_quarter_def .
  then have "x = of_int \<lfloor>x * 4\<rfloor> / 4" by linarith
  then show "\<exists>n. x = of_int n / 4" ..
next
  assume "\<exists>n. x = of_int n / 4"
  then obtain n where "x = of_int n / 4" ..
  then show "is_quarter x" unfolding is_quarter_def by simp
qed

lemma is_quarterI: "is_quarter (of_int n / 4)"
  unfolding is_quarter_iff by blast


lemma is_quarter_round: "is_quarter x \<Longrightarrow> of_int (py_round (x * 4)) / 4 = x"
proof -
  assume "is_quarter x"
  then obtain n where "x = of_int n / 4" unfolding is_quarter_iff ..
  then show ?thesis by (simp add: py_round_of_int)
qed

lemma is_quarter_diff: "is_quarter x \<Longrightarrow> is_quarter y \<Longrightarrow> is_quarter (x - y)"
proof -
  assume "is_quarter x" "is_quarter y"
  then obtain n m where "x = of_int n / 4" "y = of_int m / 4"
    unfolding is_quarter_iff by blast
  then have "x - y = of_int (n - m) / 4" by (simp add: diff_divide_distrib)
  then show ?thesis unfolding is_quarter_iff ..
qed


lemma is_quarter_min: "is_quarter x \<Longrightarrow> is_quarter y \<Longrightarrow> is_quarter (min x y)"
  by (simp add: min_def)


lemma is_quarter_pos: "is_quarter x \<Longrightarrow> 0 < x \<Longrightarrow> 1 / 4 \<le> x"
proof -
  assume "is_quarter x" "0 < x"
  then obtain n where n: "x = of_int n / 4" unfolding is_quarter_iff by blast
  with \<open>0 < x\<close> have "0 < n" by simp
  then have "1 \<le> n" by simp
  then have "(1::rat) \<le> of_int n" by simp
  with n show ?thesis by simp
qed

section \<open>One pass through the loop body\<close>

lemma loop_body_cases:
  obtains (stay) "loop_body day s = Break s"
  | (emit) topic r a s' where
      "map_of (remaining_hours s) topic = Some r"
      and "1 / 4 \<le> r"
      and "a = of_int (py_round (min r (hours_left s) * 4)) / 4"
      and "0 < a"
      and "s' = \<lparr>hours_left = of_int (py_round ((hours_left s - a) * 4)) / 4,
                 remaining_hours =
                   AList.update topic (of_int (py_round ((r - a) * 4)) / 4) (remaining_hours s),
                 schedule_rows = schedule_rows s @ [\<lparr>Date = day, Topic = topic, Hours = a\<rparr>]\<rparr>"
      and "loop_body day s = (if hours_left s' < 1 / 4 then Break s' else Next s')"
proof (cases "remaining_hours s")
  case Nil
  then have "loop_body day s = Break s" by (simp add: loop_body_def)
  then show thesis by (rule stay)
next
  case (Cons x xs)
  define topic where "topic = fst (max_item x xs)"
  show thesis
  proof (cases "map_of (remaining_hours s) topic")
    case None
    with Cons have "loop_body day s = Break s"
      unfolding loop_body_def topic_def
      by (simp only: list.case option.case Let_def)
    then show thesis by (rule stay)
  next
    case (Some r)
    define a where "a = of_int (py_round (min r (hours_left s) * 4)) / (4::rat)"
    define s' where "s' = \<lparr>hours_left = of_int (py_round ((hours_left s - a) * 4)) / 4,
                 remaining_hours =
                   AList.update topic (of_int (py_round ((r - a) * 4)) / 4) (remaining_hours s),
                 schedule_rows = schedule_rows s @ [\<lparr>Date = day, Topic = topic, Hours = a\<rparr>]\<rparr>"
    show thesis
    proof (cases "r < 1 / 4 \<or> a \<le> 0")
      case True
      with Cons Some have "loop_body day s = Break s"
        unfolding loop_body_def topic_def a_def
        by (auto simp only: list.case option.case Let_def split: if_splits)
      then show thesis by (rule stay)
    next
      case False
      with Cons Some have "loop_body day s = (if hours_left s' < 1 / 4 then Break s' else Next s')"
        unfolding loop_body_def topic_def a_def s'_def
        by (auto simp only: list.case option.case Let_def split: if_splits)
      moreover from False have "1 / 4 \<le> r" and "0 < a" by simp_all
      ultimately show thesis
        using Some a_def s'_def by (intro emit [of topic r a s'])
    qed
  qed
qed

lemma alloc_quarter_pos:
  assumes "a = of_int (py_round (m * 4)) / 4" and "0 < a"
  shows "1 / 4 \<le> a" and "is_quarter a"
proof -
  show "is_quarter a" unfolding assms(1) by (rule is_quarterI)
  then show "1 / 4 \<le> a" using \<open>0 < a\<close> by (rule is_quarter_pos)
qed

lemma round_quarter_upper: "of_int (py_round (x * 4)) / 4 \<le> x + 1 / 8"
  using py_round_upper [of "x * 4"] by linarith

lemma round_quarter_lower: "x - 1 / 8 \<le> of_int (py_round (x * 4)) / 4"
  using py_round_lower [of "x * 4"] by linarith

lemma round_quarter_nonneg: "- (1 / 8) \<le> x \<Longrightarrow> 0 \<le> of_int (py_round (x * 4)) / (4::rat)"
proof -
  assume "- (1 / 8) \<le> x"
  then have "- (1 / 2) \<le> x * 4" by linarith
  then have "0 \<le> py_round (x * 4)" by (rule py_round_nonneg)
  then show ?thesis by simp
qed

lemma loop_body_Next_decrease:
  assumes "loop_body day s = Next s'"
  shows "hours_left s' \<le> hours_left s - 1 / 8" and "1 / 4 \<le> hours_left s'"
proof -
  show "hours_left s' \<le> hours_left s - 1 / 8"
  proof (cases day s rule: loop_body_cases)
    case stay
    with assms show ?thesis by simp
  next
    case (emit topic r a t)
    from emit(6) assms have t: "t = s'" by (simp split: if_splits)
    from emit(3,4) have "1 / 4 \<le> a" by (rule alloc_quarter_pos)
    moreover have "hours_left t \<le> (hours_left s - a) + 1 / 8"
      unfolding emit(5) using round_quarter_upper [of "hours_left s - a"] by simp
    ultimately have "hours_left t \<le> hours_left s - 1 / 8" by linarith
    with t show ?thesis by simp
  qed
  show "1 / 4 \<le> hours_left s'"
  proof (cases day s rule: loop_body_cases)
    case stay
    with assms show ?thesis by simp
  next
    case (emit topic r a t)
    from emit(6) assms show ?thesis by (auto split: if_splits)
  qed
qed

lemma while_loop_rule:
  assumes init: "I s"
    and keep: "\<And>s s'. I s \<Longrightarrow> loop_test s \<Longrightarrow> loop_body day s = Next s' \<Longrightarrow> I s'"
    and leave: "\<And>s s'. I s \<Longrightarrow> loop_test s \<Longrightarrow> loop_body day s = Break s' \<Longrightarrow> Q s'"
    and stop: "\<And>s. I s \<Longrightarrow> \<not> loop_test s \<Longrightarrow> Q s"
  shows "\<exists>s'. while_loop day s = Some s' \<and> Q s'"
  using init
proof (induction "nat \<lfloor>hours_left s * 8\<rfloor>" arbitrary: s rule: less_induct)
  case less
  show ?case
  proof (cases "loop_test s")
    case False
    then have "while_loop day s = Some s" by (subst while_loop.simps) simp
    with stop [OF less.prems False] show ?thesis by simp
  next
    case True
    show ?thesis
    proof (cases "loop_body day s")
      case (Break s')
      with True have "while_loop day s = Some s'" by (subst while_loop.simps) simp
      with leave [OF less.prems True Break] show ?thesis by simp
    next
      case (Next s')
      from Next have d: "hours_left s' \<le> hours_left s - 1 / 8" "1 / 4 \<le> hours_left s'"
        by (rule loop_body_Next_decrease)+
      then have "hours_left s' * 8 + 1 \<le> hours_left s * 8" by linarith
      then have "\<lfloor>hours_left s' * 8\<rfloor> + 1 \<le> \<lfloor>hours_left s * 8\<rfloor>"
        by (metis floor_add_int floor_mono of_int_1)
      moreover from d(2) have "0 \<le> \<lfloor>hours_left s' * 8\<rfloor>" by simp
      ultimately have "nat \<lfloor>hours_left s' * 8\<rfloor> < nat \<lfloor>hours_left s * 8\<rfloor>" by linarith
      moreover have "I s'" using less.prems True Next by (rule keep)
      ultimately have "\<exists>t. while_loop day s' = Some t \<and> Q t" by (rule less.hyps)
      moreover from True Next have "while_loop day s = while_loop day s'"
        by (subst while_loop.simps) simp
      ultimately show ?thesis by simp
    qed
  qed
qed

lemma while_loop_returns: "\<exists>s'. while_loop day s = Some s'"
  using while_loop_rule [of "\<lambda>_. True" s day "\<lambda>_. True"] by simp

lemma for_days_returns: "\<exists>res. for_days days d remaining rows = Some res"
proof (induction days arbitrary: remaining rows)
  case Nil
  show ?case by simp
next
  case (Cons day days)
  obtain s where "while_loop day
      \<lparr>hours_left = d, remaining_hours = remaining, schedule_rows = rows\<rparr> = Some s"
    using while_loop_returns by blast
  with Cons show ?case by simp
qed

lemma generate_schedule_returns:
  "\<exists>res. generate_schedule fl today topics exam_date daily_hours include_weekends = Some res"
proof -
  let ?days = "build_study_days today exam_date include_weekends"
  let ?dem = "demand_loop fl (zip topics (map weight topics)) (sum_list (map weight topics))
                (fl (of_nat (length ?days) * daily_hours)) []"
  show ?thesis
  proof (cases ?dem)
    case (Inl e)
    then show ?thesis by (simp add: generate_schedule_def Let_def)
  next
    case (Inr remaining)
    obtain remaining' rows
      where "for_days ?days daily_hours remaining [] = Some (remaining', rows)"
      using for_days_returns [of ?days daily_hours remaining "[]"] by auto
    with Inr show ?thesis
      by (simp add: generate_schedule_def Let_def split: sum.splits)
  qed
qed

lemma quarters_map_of: "quarters remaining \<Longrightarrow> map_of remaining k = Some r \<Longrightarrow> is_quarter r"
  using map_of_SomeD [of remaining k r] by (fastforce simp add: quarters_def list_all_iff)


lemma quarter_alloc_exact:
  assumes "is_quarter r" and "is_quarter h"
  shows "of_int (py_round (min r h * 4)) / 4 = min r h"
  using assms by (intro is_quarter_round is_quarter_min)

lemma quarter_alloc_le:
  assumes "is_quarter r"
  shows "of_int (py_round (min r h * 4)) / 4 \<le> r"
proof -
  from assms obtain n where n: "r = of_int n / 4" unfolding is_quarter_iff ..
  then have "min r h * 4 \<le> of_int n" by simp
  then have "py_round (min r h * 4) \<le> n" by (rule py_round_le_int)
  then have "(of_int (py_round (min r h * 4)) :: rat) \<le> of_int n" by simp
  with n show ?thesis by simp
qed

lemma state_of_if: "state_of (if c then Break t else Next t) = t"
  by simp

text \<open>
  Claim C7, as stated, fails: \<open>round(alloc * 4) / 4\<close> rounds to the nearest quarter
  hour, not down. With one topic, two study days and 0.7 hours a day, the demand is 1.5
  hours and the first pass of the loop allocates 0.75 hours, more than
  \<open>min(remaining, hours_left) = 0.7\<close>.
\<close>

theorem alloc_exceeds_min_counterexample:
  "demand_loop binary64 (zip [\<lparr>name = ''A'', difficulty = 2, priority = False\<rparr>]
                    (map weight [\<lparr>name = ''A'', difficulty = 2, priority = False\<rparr>]))
               (sum_list (map weight [\<lparr>name = ''A'', difficulty = 2, priority = False\<rparr>]))
               (binary64 (of_nat (length (build_study_days 1 3 True)) * (7 / 10))) []
     = Inr [(''A'', 3 / 2)]
   \<and> loop_test \<lparr>hours_left = 7 / 10, remaining_hours = [(''A'', 3 / 2)], schedule_rows = []\<rparr>
   \<and> loop_body 1 \<lparr>hours_left = 7 / 10, remaining_hours = [(''A'', 3 / 2)], schedule_rows = []\<rparr>
       = Break \<lparr>hours_left = 0, remaining_hours = [(''A'', 3 / 4)],
                 schedule_rows = [\<lparr>Date = 1, Topic = ''A'', Hours = 3 / 4\<rparr>]\<rparr>
   \<and> \<not> (3 / 4 \<le> min (3 / 2) (7 / 10 :: rat))
   \<and> generate_schedule binary64 1 [\<lparr>name = ''A'', difficulty = 2, priority = False\<rparr>] 3 (7 / 10) True
       = Some (Inr ([\<lparr>Date = 1, Topic = ''A'', Hours = 3 / 4\<rparr>,
                     \<lparr>Date = 2, Topic = ''A'', Hours = 3 / 4\<rparr>], [(''A'', 0)],
                    binary64 (7 / 5)))"
  by code_simp

text \<open>
  Claim C7, amended. In a state whose demand entries are multiples of a quarter hour (all
  reachable states are, see \<open>quarters_update\<close>), a pass that emits a row allocates
  \<open>min(remaining[topic], hours_left)\<close> rounded to the nearest quarter hour by Python's
  \<open>round\<close>: at most 0.125 away from that minimum, never more than \<open>remaining[topic]\<close>,
  and equal to the minimum whenever \<open>hours_left\<close> is itself a multiple of a quarter hour.
\<close>

theorem alloc_is_nearest_quarter:
  assumes "quarters (remaining_hours s)"
    and "schedule_rows (state_of (loop_body day s)) = schedule_rows s @ [row]"
  shows "\<exists>r. map_of (remaining_hours s) (Topic row) = Some r
           \<and> Hours row = of_int (py_round (min r (hours_left s) * 4)) / 4
           \<and> \<bar>Hours row - min r (hours_left s)\<bar> \<le> 1 / 8
           \<and> Hours row \<le> r
           \<and> (is_quarter (hours_left s) \<longrightarrow> Hours row = min r (hours_left s))"
proof (cases day s rule: loop_body_cases)
  case stay
  with assms(2) show ?thesis by simp
next
  case (emit topic r a s')
  from emit(6) have "state_of (loop_body day s) = s'" by (simp only: state_of_if)
  with assms(2) emit(5) have row: "row = \<lparr>Date = day, Topic = topic, Hours = a\<rparr>" by simp
  from assms(1) emit(1) have qr: "is_quarter r" by (rule quarters_map_of)
  let ?m = "min r (hours_left s)"
  have "a \<le> ?m + 1 / 8" "?m - 1 / 8 \<le> a"
    unfolding emit(3) by (rule round_quarter_upper round_quarter_lower)+
  then have near: "\<bar>a - ?m\<bar> \<le> 1 / 8" by linarith
  have le: "a \<le> r" unfolding emit(3) using qr by (rule quarter_alloc_le)
  have exact: "a = ?m" if "is_quarter (hours_left s)"
    unfolding emit(3) using qr that by (rule quarter_alloc_exact)
  from emit(1,3) near le exact show ?thesis unfolding row by auto
qed

theorem alloc_is_nearest_quarter_witness:
  "quarters (remaining_hours \<lparr>hours_left = 7 / 10, remaining_hours = [(''A'', 3 / 2)], schedule_rows = []\<rparr>)
   \<and> schedule_rows (state_of (loop_body 1 \<lparr>hours_left = 7 / 10, remaining_hours = [(''A'', 3 / 2)], schedule_rows = []\<rparr>))
        = schedule_rows \<lparr>hours_left = 7 / 10, remaining_hours = [(''A'', 3 / 2)], schedule_rows = []\<rparr>
            @ [\<lparr>Date = 1, Topic = ''A'', Hours = 3 / 4\<rparr>]
   \<and> (\<exists>r::rat. map_of [(''A'', 3 / 2)] ''A'' = Some r
          \<and> \<bar>3 / 4 - min r (7 / 10)\<bar> \<le> 1 / 8 \<and> 3 / 4 \<le> r)"
proof -
  let ?s = "\<lparr>hours_left = 7 / 10, remaining_hours = [(''A'', 3 / 2)], schedule_rows = []\<rparr>"
  have h1: "quarters (remaining_hours ?s)" by code_simp
  have h2: "schedule_rows (state_of (loop_body 1 ?s))
              = schedule_rows ?s @ [\<lparr>Date = 1, Topic = ''A'', Hours = 3 / 4\<rparr>]" by code_simp
  from alloc_is_nearest_quarter [OF h1 h2] h1 h2 show ?thesis by auto
qed

section \<open>The demand map under the allocator\<close>

lemma list_all2_same_nonneg:
  "\<forall>h \<in> set (map snd ys). 0 \<le> h \<Longrightarrow>
   list_all2 (\<lambda>(k, v) (k', v'). k' = k \<and> 0 \<le> v' \<and> v' \<le> (v::rat)) ys ys"
  by (induction ys) auto

lemma update_list_all2:
  fixes xs :: demand_map
  assumes "map_of xs k = Some r" and "0 \<le> v" and "v \<le> r"
    and "\<forall>h \<in> set (map snd xs). 0 \<le> h"
  shows "list_all2 (\<lambda>(k, v) (k', v'). k' = k \<and> 0 \<le> v' \<and> v' \<le> v) xs (AList.update k v xs)"
  using assms
proof (induction xs)
  case Nil
  then show ?case by simp
next
  case (Cons x xs)
  show ?case
  proof (cases "fst x = k")
    case True
    with Cons.prems list_all2_same_nonneg [of xs] show ?thesis by (cases x) auto
  next
    case False
    with Cons show ?thesis by (cases x) auto
  qed
qed

text \<open>
  Claim C8. The only assignment to the demand map in the allocator is the one of line
  120, in the loop body. Whatever the outcome of a pass through the body, the map keeps
  its keys in order, no entry increases, and every entry is non-negative afterwards,
  provided the entries were non-negative before (they start at 0.5 or more).
\<close>

theorem demand_never_increases:
  assumes "\<forall>h \<in> set (map snd (remaining_hours s)). 0 \<le> h"
  shows "list_all2 (\<lambda>(k, v) (k', v'). k' = k \<and> 0 \<le> v' \<and> v' \<le> v)
           (remaining_hours s) (remaining_hours (state_of (loop_body day s)))"
proof (cases day s rule: loop_body_cases)
  case stay
  with assms show ?thesis by (simp add: list_all2_same_nonneg)
next
  case (emit topic r a s')
  from emit(6) have st: "state_of (loop_body day s) = s'" by (simp only: state_of_if)
  let ?v = "of_int (py_round ((r - a) * 4)) / 4 :: rat"
  from emit(3,4) have a: "1 / 4 \<le> a" by (rule alloc_quarter_pos)
  have "a \<le> min r (hours_left s) + 1 / 8"
    unfolding emit(3) by (rule round_quarter_upper)
  then have "- (1 / 8) \<le> r - a" by linarith
  then have nonneg: "0 \<le> ?v" by (rule round_quarter_nonneg)
  have "?v \<le> (r - a) + 1 / 8" by (rule round_quarter_upper)
  with a have le: "?v \<le> r" by linarith
  from emit(1) nonneg le assms
  have "list_all2 (\<lambda>(k, v) (k', v'). k' = k \<and> 0 \<le> v' \<and> v' \<le> v)
          (remaining_hours s) (AList.update topic ?v (remaining_hours s))"
    by (rule update_list_all2)
  then show ?thesis unfolding st emit(5) by simp
qed

theorem demand_never_increases_witness:
  "remaining_hours (state_of (loop_body 1
      \<lparr>hours_left = 3, remaining_hours = [(''A'', 1 / 2), (''B'', 5)], schedule_rows = []\<rparr>))
     = [(''A'', 1 / 2), (''B'', 2)]
   \<and> list_all2 (\<lambda>(k, v) (k', v'). k' = k \<and> 0 \<le> v' \<and> v' \<le> v)
        (remaining_hours
          \<lparr>hours_left = 3, remaining_hours = [(''A'', 1 / 2), (''B'', 5)], schedule_rows = []\<rparr>)
        (remaining_hours (state_of (loop_body 1
          \<lparr>hours_left = 3, remaining_hours = [(''A'', 1 / 2), (''B'', 5)], schedule_rows = []\<rparr>)))"
proof -
  let ?s = "\<lparr>hours_left = 3, remaining_hours = [(''A'', 1 / 2), (''B'', 5)], schedule_rows = []\<rparr>"
  have h: "\<forall>h \<in> set (map snd (remaining_hours ?s)). 0 \<le> h" by simp
  have e: "remaining_hours (state_of (loop_body 1 ?s)) = [(''A'', 1 / 2), (''B'', 2)]"
    by code_simp
  from demand_never_increases [OF h, of 1] e show ?thesis by blast
qed

section \<open>Termination\<close>

text \<open>
  Claim C9, as stated, fails in its reason: a pass through the loop body that does not
  break can lower \<open>hours_left\<close> by less than a quarter hour. With two topics of equal
  weight, three study days and 0.7 hours a day, the third day starts with 0.25 hours
  owed to each topic; its first pass allocates 0.25 hours, does not break, and leaves
  \<open>hours_left = round(0.45 * 4) / 4 = 0.5\<close>, only 0.2 less than before.
\<close>

theorem hours_left_small_decrease_counterexample:
  "demand_loop binary64 (zip [\<lparr>name = ''A'', difficulty = 2, priority = False\<rparr>,
                     \<lparr>name = ''B'', difficulty = 2, priority = False\<rparr>]
                    (map weight [\<lparr>name = ''A'', difficulty = 2, priority = False\<rparr>,
                                 \<lparr>name = ''B'', difficulty = 2, priority = False\<rparr>]))
               (sum_list (map weight [\<lparr>name = ''A'', difficulty = 2, priority = False\<rparr>,
                                      \<lparr>name = ''B'', difficulty = 2, priority = False\<rparr>]))
               (binary64 (of_nat (length (build_study_days 1 4 True)) * (7 / 10))) []
     = Inr [(''A'', 1), (''B'', 1)]
   \<and> build_study_days 1 4 True = [1, 2, 3]
   \<and> for_days [1, 2] (7 / 10) [(''A'', 1), (''B'', 1)] []
       = Some ([(''A'', 1 / 4), (''B'', 1 / 4)],
               [\<lparr>Date = 1, Topic = ''A'', Hours = 3 / 4\<rparr>,
                \<lparr>Date = 2, Topic = ''B'', Hours = 3 / 4\<rparr>])
   \<and> loop_test \<lparr>hours_left = 7 / 10, remaining_hours = [(''A'', 1 / 4), (''B'', 1 / 4)],
                 schedule_rows = [\<lparr>Date = 1, Topic = ''A'', Hours = 3 / 4\<rparr>,
                                  \<lparr>Date = 2, Topic = ''B'', Hours = 3 / 4\<rparr>]\<rparr>
   \<and> loop_body 3 \<lparr>hours_left = 7 / 10, remaining_hours = [(''A'', 1 / 4), (''B'', 1 / 4)],
                   schedule_rows = [\<lparr>Date = 1, Topic = ''A'', Hours = 3 / 4\<rparr>,
                                    \<lparr>Date = 2, Topic = ''B'', Hours = 3 / 4\<rparr>]\<rparr>
       = Next \<lparr>hours_left = 1 / 2, remaining_hours = [(''A'', 0), (''B'', 1 / 4)],
                schedule_rows = [\<lparr>Date = 1, Topic = ''A'', Hours = 3 / 4\<rparr>,
                                 \<lparr>Date = 2, Topic = ''B'', Hours = 3 / 4\<rparr>,
                                 \<lparr>Date = 3, Topic = ''A'', Hours = 1 / 4\<rparr>]\<rparr>
   \<and> \<not> ((1 / 2 :: rat) \<le> 7 / 10 - 1 / 4)"
  by code_simp

text \<open>
  Claim C9, amended. For every input, \<open>generate_schedule\<close> returns or raises, and the
  inner loop started in any state returns: a pass through the loop body that does not
  break lowers \<open>hours_left\<close> by at least half a granularity unit (0.125 hours), and by
  at least a whole unit (0.25 hours) when \<open>hours_left\<close> and the demand entries are
  multiples of a quarter hour.
\<close>

theorem allocation_terminates:
  "(\<exists>res. generate_schedule fl today topics exam_date daily_hours include_weekends = Some res)
   \<and> (\<exists>s'. while_loop day s = Some s')
   \<and> (loop_body day s = Next s' \<longrightarrow>
        hours_left s' \<le> hours_left s - 1 / 8
        \<and> (quarters (remaining_hours s) \<and> is_quarter (hours_left s) \<longrightarrow>
             hours_left s' \<le> hours_left s - 1 / 4))"
proof (intro conjI impI)
  show "\<exists>res. generate_schedule fl today topics exam_date daily_hours include_weekends = Some res"
    by (rule generate_schedule_returns)
  show "\<exists>s'. while_loop day s = Some s'" by (rule while_loop_returns)
next
  assume "loop_body day s = Next s'"
  then show "hours_left s' \<le> hours_left s - 1 / 8" by (rule loop_body_Next_decrease)
next
  assume n: "loop_body day s = Next s'"
    and q: "quarters (remaining_hours s) \<and> is_quarter (hours_left s)"
  show "hours_left s' \<le> hours_left s - 1 / 4"
  proof (cases day s rule: loop_body_cases)
    case stay
    with n show ?thesis by simp
  next
    case (emit topic r a t)
    from emit(6) n have t: "t = s'" by (simp split: if_splits)
    from emit(3,4) have a: "1 / 4 \<le> a" by (rule alloc_quarter_pos)
    from q emit(1) have "is_quarter r" by (auto intro: quarters_map_of)
    with q have "a = min r (hours_left s)" unfolding emit(3)
      by (simp add: quarter_alloc_exact)
    with q \<open>is_quarter r\<close> have "is_quarter (hours_left s - a)"
      by (simp add: is_quarter_diff is_quarter_min)
    then have "of_int (py_round ((hours_left s - a) * 4)) / 4 = hours_left s - a"
      by (rule is_quarter_round)
    moreover have "hours_left t = of_int (py_round ((hours_left s - a) * 4)) / 4"
      unfolding emit(5) by simp
    ultimately have "hours_left t = hours_left s - a" by simp
    with a t show ?thesis by simp
  qed
qed

theorem allocation_terminates_witness:
  "loop_body 3 \<lparr>hours_left = 7 / 10, remaining_hours = [(''A'', 1 / 4), (''B'', 1 / 4)],
                  schedule_rows = []\<rparr>
     = Next \<lparr>hours_left = 1 / 2, remaining_hours = [(''A'', 0), (''B'', 1 / 4)],
              schedule_rows = [\<lparr>Date = 3, Topic = ''A'', Hours = 1 / 4\<rparr>]\<rparr>
   \<and> (1 / 2 :: rat) \<le> 7 / 10 - 1 / 8
   \<and> loop_body 3 \<lparr>hours_left = 1, remaining_hours = [(''A'', 1 / 4), (''B'', 1 / 4)],
                  schedule_rows = []\<rparr>
     = Next \<lparr>hours_left = 3 / 4, remaining_hours = [(''A'', 0), (''B'', 1 / 4)],
              schedule_rows = [\<lparr>Date = 3, Topic = ''A'', Hours = 1 / 4\<rparr>]\<rparr>
   \<and> quarters [(''A'', 1 / 4), (''B'', 1 / 4)] \<and> is_quarter 1
   \<and> (3 / 4 :: rat) \<le> 1 - 1 / 4
   \<and> (\<exists>res. generate_schedule binary64 1 [\<lparr>name = ''A'', difficulty = 2, priority = False\<rparr>] 4 (7 / 10) True
         = Some res)"
proof -
  let ?s = "\<lparr>hours_left = 7 / 10, remaining_hours = [(''A'', 1 / 4), (''B'', 1 / 4)],
                  schedule_rows = []\<rparr>"
  let ?s' = "\<lparr>hours_left = 1 / 2, remaining_hours = [(''A'', 0), (''B'', 1 / 4)],
              schedule_rows = [\<lparr>Date = 3, Topic = ''A'', Hours = 1 / 4\<rparr>]\<rparr>"
  let ?t = "\<lparr>hours_left = 1, remaining_hours = [(''A'', 1 / 4), (''B'', 1 / 4)],
                  schedule_rows = []\<rparr>"
  let ?t' = "\<lparr>hours_left = 3 / 4, remaining_hours = [(''A'', 0), (''B'', 1 / 4)],
              schedule_rows = [\<lparr>Date = 3, Topic = ''A'', Hours = 1 / 4\<rparr>]\<rparr>"
  have h1: "loop_body 3 ?s = Next ?s'" by code_simp
  have h2: "loop_body 3 ?t = Next ?t'" by code_simp
  have h3: "quarters (remaining_hours ?t) \<and> is_quarter (hours_left ?t)" by code_simp
  from allocation_terminates [of binary64 1 "[\<lparr>name = ''A'', difficulty = 2, priority = False\<rparr>]" 4 "7 / 10" True 3 ?s ?s']
    allocation_terminates [of binary64 1 "[\<lparr>name = ''A'', difficulty = 2, priority = False\<rparr>]" 4 "7 / 10" True 3 ?t ?t']
    h1 h2 h3
  show ?thesis by simp
qed

section \<open>The rounding of float results\<close>

lemma pow2_pos: "0 < power_int (2::rat) k"
  by simp

lemma pow2_add: "power_int (2::rat) (a + b) = power_int 2 a * power_int 2 b"
  by (rule power_int_add) simp

lemma pow2_mono: "a \<le> b \<Longrightarrow> power_int (2::rat) a \<le> power_int 2 b"
  by (rule power_int_increasing) simp_all

lemma pow2_less_imp: "power_int (2::rat) a < power_int 2 b \<Longrightarrow> a < b"
proof (rule ccontr)
  assume l: "power_int (2::rat) a < power_int 2 b" and "\<not> a < b"
  then have "b \<le> a" by simp
  then have "power_int (2::rat) b \<le> power_int 2 a" by (rule pow2_mono)
  with l show False by simp
qed

lemma pow2_of_int: "0 \<le> k \<Longrightarrow> power_int (2::rat) k = of_int (2 ^ nat k)"
  by (simp add: power_int_def)

lemma bitlen_rat_bounds:
  assumes "0 < p"
  shows "power_int (2::rat) (bitlen p - 1) \<le> of_int p" and "of_int p < power_int (2::rat) (bitlen p)"
proof -
  from assms have "bitlen p \<noteq> 0" by (simp add: bitlen_eq_zero_iff)
  with bitlen_nonneg [of p] have b1: "1 \<le> bitlen p" by simp
  from bitlen_bounds [OF assms] have lo: "2 ^ nat (bitlen p - 1) \<le> p"
    and hi: "p < 2 ^ nat (bitlen p)" by simp_all
  from lo have "(of_int (2 ^ nat (bitlen p - 1)) :: rat) \<le> of_int p" by (simp only: of_int_le_iff)
  with b1 show "power_int (2::rat) (bitlen p - 1) \<le> of_int p" by (simp add: pow2_of_int)
  from hi have "(of_int p :: rat) < of_int (2 ^ nat (bitlen p))" by (simp only: of_int_less_iff)
  with b1 show "of_int p < power_int (2::rat) (bitlen p)" by (simp add: pow2_of_int)
qed

lemma pow2_split: "power_int (2::rat) a * power_int 2 (b - a) = power_int 2 b"
  using pow2_add [of a "b - a"] by simp

lemma pow2_52: "power_int (2::rat) 52 = of_int (2 ^ 52)"
  by simp

lemma pow2_53: "power_int (2::rat) 53 = of_int (2 ^ 53)"
  by simp

lemma binary_exponent_bounds:
  assumes "0 < x"
  shows "power_int 2 (binary_exponent x) \<le> x" and "x < power_int 2 (binary_exponent x + 1)"
proof -
  obtain p q where pq: "quotient_of x = (p, q)" by (cases "quotient_of x")
  then have q: "0 < q" by (rule quotient_of_denom_pos)
  from pq have x: "x = of_int p / of_int q" by (rule quotient_of_div)
  with assms q have p: "0 < p" by (simp add: zero_less_divide_iff)
  let ?k = "bitlen p - bitlen q"
  note bp = bitlen_rat_bounds [OF p] and bq = bitlen_rat_bounds [OF q]
  from q have q': "(0::rat) < of_int q" by simp
  from p have p': "(0::rat) \<le> of_int p" by simp
  have "of_int p / of_int q < power_int (2::rat) (bitlen p) / power_int 2 (bitlen q - 1)"
    using p' bp(2) pow2_pos bq(1) by (rule frac_less)
  also have "\<dots> = power_int 2 (?k + 1)"
    using power_int_diff [of "2::rat" "bitlen p" "bitlen q - 1"] by (simp add: algebra_simps)
  finally have hi: "x < power_int 2 (?k + 1)" unfolding x .
  have q2: "(0::rat) \<le> power_int 2 (bitlen q)" by simp
  from bq(2) have q3: "of_int q \<le> power_int (2::rat) (bitlen q)" by simp
  have "power_int (2::rat) (bitlen p - 1) / power_int 2 (bitlen q) \<le> of_int p / of_int q"
    using p' bp(1) q' q3 by (rule frac_le)
  moreover have "power_int 2 (bitlen p - 1) / power_int 2 (bitlen q) = power_int (2::rat) (?k - 1)"
    using power_int_diff [of "2::rat" "bitlen p - 1" "bitlen q"] by (simp add: algebra_simps)
  ultimately have lo: "power_int 2 (?k - 1) \<le> x" unfolding x by simp
  have e: "binary_exponent x = (if power_int 2 ?k \<le> x then ?k else ?k - 1)"
    by (simp add: binary_exponent_def pq Let_def)
  show "power_int 2 (binary_exponent x) \<le> x" using lo by (simp add: e)
  show "x < power_int 2 (binary_exponent x + 1)" using hi by (auto simp add: e)
qed

lemma binary_exponent_mono:
  assumes "0 < x" and "x \<le> y"
  shows "binary_exponent x \<le> binary_exponent y"
proof -
  from assms have "0 < y" by simp
  from binary_exponent_bounds(1) [OF assms(1)] assms(2) binary_exponent_bounds(2) [OF \<open>0 < y\<close>]
  have "power_int (2::rat) (binary_exponent x) < power_int 2 (binary_exponent y + 1)" by simp
  then have "binary_exponent x < binary_exponent y + 1" by (rule pow2_less_imp)
  then show ?thesis by simp
qed

lemma round_pos_bounds:
  assumes "0 < x"
  shows "power_int 2 (binary_exponent x) \<le> round_pos x"
    and "round_pos x \<le> power_int 2 (binary_exponent x + 1)"
proof -
  let ?e = "binary_exponent x"
  let ?m = "x * power_int 2 (52 - ?e)"
  note b = binary_exponent_bounds [OF assms]
  have s: "0 \<le> power_int (2::rat) (52 - ?e)" by simp
  have t: "0 \<le> power_int (2::rat) (?e - 52)" by simp
  have rp: "round_pos x = of_int (py_round ?m) * power_int 2 (?e - 52)"
    by (simp only: round_pos_def Let_def)
  from b(1) s have "power_int 2 ?e * power_int 2 (52 - ?e) \<le> ?m" by (rule mult_right_mono)
  then have "of_int (2 ^ 52) \<le> ?m" unfolding pow2_split pow2_52 .
  then have "2 ^ 52 \<le> py_round ?m" by (rule py_round_ge_int)
  then have "(of_int (2 ^ 52) :: rat) \<le> of_int (py_round ?m)" by (simp only: of_int_le_iff)
  then have "power_int (2::rat) 52 \<le> of_int (py_round ?m)" unfolding pow2_52 .
  from this t
  have "power_int (2::rat) 52 * power_int 2 (?e - 52) \<le> of_int (py_round ?m) * power_int 2 (?e - 52)"
    by (rule mult_right_mono)
  then show "power_int 2 ?e \<le> round_pos x" unfolding pow2_split rp .
  from b(2) have "x \<le> power_int 2 (?e + 1)" by simp
  from this s have "?m \<le> power_int 2 (?e + 1) * power_int 2 (52 - ?e)" by (rule mult_right_mono)
  moreover have "power_int (2::rat) (?e + 1) * power_int 2 (52 - ?e) = power_int 2 53"
    using pow2_split [of "?e + 1" 53] by (simp add: algebra_simps)
  ultimately have "?m \<le> of_int (2 ^ 53)" unfolding pow2_53 by simp
  then have "py_round ?m \<le> 2 ^ 53" by (rule py_round_le_int)
  then have "(of_int (py_round ?m) :: rat) \<le> of_int (2 ^ 53)" by (simp only: of_int_le_iff)
  then have "of_int (py_round ?m) \<le> power_int (2::rat) 53" unfolding pow2_53 .
  from this t
  have "of_int (py_round ?m) * power_int (2::rat) (?e - 52) \<le> power_int 2 53 * power_int 2 (?e - 52)"
    by (rule mult_right_mono)
  moreover have "power_int (2::rat) 53 * power_int 2 (?e - 52) = power_int 2 (?e + 1)"
    using pow2_split [of 53 "?e + 1"] by (simp only: algebra_simps) simp
  ultimately show "round_pos x \<le> power_int 2 (?e + 1)" unfolding rp by (simp only:)
qed

lemma round_pos_pos: "0 < x \<Longrightarrow> 0 < round_pos x"
  by (rule less_le_trans [OF pow2_pos round_pos_bounds(1)])

lemma round_pos_mono:
  assumes "0 < x" and "x \<le> y"
  shows "round_pos x \<le> round_pos y"
proof -
  from assms have y: "0 < y" by simp
  from assms have le: "binary_exponent x \<le> binary_exponent y" by (rule binary_exponent_mono)
  show ?thesis
  proof (cases "binary_exponent x = binary_exponent y")
    case True
    let ?e = "binary_exponent y"
    have "0 \<le> power_int (2::rat) (52 - ?e)" by simp
    with assms(2) have "x * power_int 2 (52 - ?e) \<le> y * power_int 2 (52 - ?e)"
      by (rule mult_right_mono)
    then have "py_round (x * power_int 2 (52 - ?e)) \<le> py_round (y * power_int 2 (52 - ?e))"
      by (rule py_round_mono)
    then have "(of_int (py_round (x * power_int 2 (52 - ?e))) :: rat)
        \<le> of_int (py_round (y * power_int 2 (52 - ?e)))" by (simp only: of_int_le_iff)
    moreover have "0 \<le> power_int (2::rat) (?e - 52)" by simp
    ultimately have "of_int (py_round (x * power_int 2 (52 - ?e))) * power_int (2::rat) (?e - 52)
        \<le> of_int (py_round (y * power_int 2 (52 - ?e))) * power_int 2 (?e - 52)"
      by (rule mult_right_mono)
    with True show ?thesis by (simp add: round_pos_def Let_def)
  next
    case False
    with le have "binary_exponent x + 1 \<le> binary_exponent y" by simp
    then have "power_int (2::rat) (binary_exponent x + 1) \<le> power_int 2 (binary_exponent y)"
      by (rule pow2_mono)
    with round_pos_bounds(2) [OF assms(1)] round_pos_bounds(1) [OF y] show ?thesis by simp
  qed
qed

lemma binary64_mono: "x \<le> y \<Longrightarrow> binary64 x \<le> binary64 y"
proof -
  assume xy: "x \<le> y"
  consider "0 < x" | "x = 0" | "x < 0" "y < 0" | "x < 0" "0 \<le> y" by linarith
  then show ?thesis
  proof cases
    case 1
    with xy have "0 < y" by simp
    with 1 xy show ?thesis by (simp add: binary64_def round_pos_mono)
  next
    case 2
    with xy have "y = 0 \<or> 0 < y" by auto
    with 2 show ?thesis using round_pos_pos [of y] by (auto simp add: binary64_def)
  next
    case 3
    then have "0 < - y" and "- y \<le> - x" using xy by simp_all
    then have "round_pos (- y) \<le> round_pos (- x)" by (rule round_pos_mono)
    with 3 show ?thesis by (simp add: binary64_def)
  next
    case 4
    then have "0 < round_pos (- x)" by (intro round_pos_pos) simp
    moreover from 4 have "y = 0 \<or> 0 < y" by auto
    ultimately show ?thesis using 4 round_pos_pos [of y] by (auto simp add: binary64_def)
  qed
qed

lemma rounding_binary64: "rounding binary64"
  unfolding rounding_def using binary64_mono by (simp add: binary64_def)

section \<open>The initial demand map\<close>

lemma set_update_subset: "set (AList.update k v al) \<subseteq> insert (k, v) (set al)"
  by (induction al) auto

lemma demand_loop_result:
  assumes "sum_w \<noteq> 0" and "distinct (map fst remaining)"
  shows "\<exists>rem'. demand_loop fl tws sum_w tot remaining = Inr rem'
           \<and> distinct (map fst rem')
           \<and> fst ` set rem' = fst ` set remaining \<union> (\<lambda>(t, w). name t) ` set tws
           \<and> set rem' \<subseteq> set remaining \<union> (\<lambda>(t, w). (name t, entitlement fl w sum_w tot)) ` set tws
           \<and> (\<forall>h \<in> snd ` (set rem' - set remaining). \<exists>w. h = entitlement fl w sum_w tot)"
  using assms(2)
proof (induction tws arbitrary: remaining)
  case Nil
  then show ?case by simp
next
  case (Cons tw tws)
  obtain t w where tw: "tw = (t, w)" by (cases tw)
  let ?r = "AList.update (name t) (entitlement fl w sum_w tot) remaining"
  from Cons.prems have "distinct (map fst ?r)" by (simp add: distinct_update)
  from Cons.IH [OF this] obtain rem' where r:
    "demand_loop fl tws sum_w tot ?r = Inr rem'"
    "distinct (map fst rem')"
    "fst ` set rem' = fst ` set ?r \<union> (\<lambda>(t, w). name t) ` set tws"
    "set rem' \<subseteq> set ?r \<union> (\<lambda>(t, w). (name t, entitlement fl w sum_w tot)) ` set tws"
    by blast
  have sub: "set ?r \<subseteq> insert (name t, entitlement fl w sum_w tot) (set remaining)"
    by (rule set_update_subset)
  have "demand_loop fl (tw # tws) sum_w tot remaining = Inr rem'"
    using r(1) assms(1) tw by simp
  moreover have "fst ` set rem' = fst ` set remaining \<union> (\<lambda>(t, w). name t) ` set (tw # tws)"
    using r(3) tw by (auto simp add: dom_update)
  moreover have "set rem' \<subseteq> set remaining
      \<union> (\<lambda>(t, w). (name t, entitlement fl w sum_w tot)) ` set (tw # tws)"
    using r(4) sub tw by auto
  moreover from this have "\<forall>h \<in> snd ` (set rem' - set remaining). \<exists>w. h = entitlement fl w sum_w tot"
    by fastforce
  ultimately show ?case using r(2) by blast
qed

lemma initial_demand_result:
  assumes "sum_list (map weight topics) \<noteq> 0"
  shows "\<exists>rem. initial_demand fl topics tot = Inr rem
           \<and> distinct (map fst rem)
           \<and> fst ` set rem = name ` set topics
           \<and> set rem \<subseteq> (\<lambda>t. (name t, entitlement fl (weight t) (sum_list (map weight topics)) tot))
                          ` set topics"
proof -
  let ?tws = "zip topics (map weight topics)"
  have z: "set ?tws = (\<lambda>t. (t, weight t)) ` set topics"
    by (induction topics) auto
  from demand_loop_result [OF assms, where remaining = "[]" and tws = ?tws and tot = tot and fl = fl]
  obtain rem where r: "demand_loop fl ?tws (sum_list (map weight topics)) tot [] = Inr rem"
    "distinct (map fst rem)"
    "fst ` set rem = fst ` set [] \<union> (\<lambda>(t, w). name t) ` set ?tws"
    "set rem \<subseteq> set [] \<union> (\<lambda>(t, w). (name t, entitlement fl w (sum_list (map weight topics)) tot)) ` set ?tws"
    by auto
  from r(3) have "fst ` set rem = name ` set topics" unfolding z by auto
  moreover from r(4) have "set rem \<subseteq> (\<lambda>t. (name t, entitlement fl (weight t) (sum_list (map weight topics)) tot))
                          ` set topics" unfolding z by auto
  ultimately show ?thesis using r(1,2) unfolding initial_demand_def by blast
qed

lemma initial_demand_lookup:
  assumes "sum_list (map weight topics) \<noteq> 0"
    and "distinct (map name topics)"
    and "t \<in> set topics"
  shows "\<exists>rem. initial_demand fl topics tot = Inr rem
           \<and> map_of rem (name t) = Some (entitlement fl (weight t) (sum_list (map weight topics)) tot)"
proof -
  from initial_demand_result [OF assms(1), where tot = tot and fl = fl] obtain rem where r:
    "initial_demand fl topics tot = Inr rem" "distinct (map fst rem)"
    "fst ` set rem = name ` set topics"
    "set rem \<subseteq> (\<lambda>t. (name t, entitlement fl (weight t) (sum_list (map weight topics)) tot))
                          ` set topics"
    by blast
  from assms(3) r(3) obtain e where e: "(name t, e) \<in> set rem" by force
  with r(4) obtain t' where t': "t' \<in> set topics" "name t' = name t"
    "e = entitlement fl (weight t') (sum_list (map weight topics)) tot" by auto
  from assms(2) have "inj_on name (set topics)" by (simp add: distinct_map)
  with t'(1,2) assms(3) have "t' = t" by (auto dest: inj_onD)
  with e t'(3) r(2) have "map_of rem (name t) = Some (entitlement fl (weight t) (sum_list (map weight topics)) tot)"
    by simp
  with r(1) show ?thesis by blast
qed

lemma entitlement_form:
  "entitlement fl w sum_w tot
     = max (1 / 2) (of_int (py_round (fl (fl (w / sum_w) * tot) * 2)) / 2)"
  by (simp add: entitlement_def Let_def max_def)

lemma entitlement_char:
  "\<exists>n. entitlement fl w sum_w tot = max (1 / 2) (of_int n / 2)
       \<and> \<bar>of_int n - fl (fl (w / sum_w) * tot) * 2\<bar> \<le> (1 / 2 :: rat)
       \<and> (\<bar>of_int n - fl (fl (w / sum_w) * tot) * 2\<bar> = (1 / 2 :: rat) \<longrightarrow> even n)"
proof -
  let ?x = "fl (fl (w / sum_w) * tot) * 2"
  let ?n = "py_round ?x"
  have "entitlement fl w sum_w tot = max (1 / 2) (of_int ?n / 2)"
    by (rule entitlement_form)
  moreover have "\<bar>of_int ?n - ?x\<bar> \<le> 1 / 2"
    using py_round_upper [of ?x] py_round_lower [of ?x] by linarith
  moreover have "\<bar>of_int ?n - ?x\<bar> = 1 / 2 \<longrightarrow> even ?n"
    using py_round_tie_even [of ?x] by blast
  ultimately show ?thesis by blast
qed

lemma member_le_sum_list_rat:
  fixes xs :: "rat list"
  assumes "\<forall>x \<in> set xs. 0 \<le> x" and "x \<in> set xs"
  shows "x \<le> sum_list xs"
  using assms
proof (induction xs)
  case Nil
  then show ?case by simp
next
  case (Cons y ys)
  from Cons.prems(1) have "0 \<le> sum_list ys" by (simp add: sum_list_nonneg)
  show ?case
  proof (cases "x = y")
    case True
    with \<open>0 \<le> sum_list ys\<close> show ?thesis by simp
  next
    case False
    with Cons have "x \<le> sum_list ys" by simp
    moreover from Cons.prems(1) have "0 \<le> y" by simp
    ultimately show ?thesis by simp
  qed
qed

lemma entitlement_priority_mono:
  assumes fl: "rounding fl" and "0 < w" and "w \<le> S"
  shows "entitlement fl w S tot \<le> entitlement fl (w * 2) (S + w) tot"
proof -
  from fl have mono: "fl x \<le> fl y" if "x \<le> y" for x y
    using that by (simp add: rounding_def)
  from fl have zero: "fl 0 = 0" by (simp add: rounding_def)
  show ?thesis
  proof (cases "0 \<le> tot")
    case True
    from assms(2,3) have "w * (S + w) \<le> w * 2 * S" by (simp add: algebra_simps mult_left_mono)
    with assms(2,3) have "w / S \<le> w * 2 / (S + w)" by (simp add: frac_le_eq field_simps)
    then have "fl (w / S) \<le> fl (w * 2 / (S + w))" by (rule mono)
    from this True have "fl (w / S) * tot \<le> fl (w * 2 / (S + w)) * tot"
      by (rule mult_right_mono)
    then have "fl (fl (w / S) * tot) \<le> fl (fl (w * 2 / (S + w)) * tot)" by (rule mono)
    then have "fl (fl (w / S) * tot) * 2 \<le> fl (fl (w * 2 / (S + w)) * tot) * 2"
      by (rule mult_right_mono) simp
    then have "py_round (fl (fl (w / S) * tot) * 2) \<le> py_round (fl (fl (w * 2 / (S + w)) * tot) * 2)"
      by (rule py_round_mono)
    then have "(of_int (py_round (fl (fl (w / S) * tot) * 2)) :: rat) / 2
        \<le> of_int (py_round (fl (fl (w * 2 / (S + w)) * tot) * 2)) / 2" by simp
    then show ?thesis unfolding entitlement_form by (simp add: max_def)
  next
    case False
    have neg: "entitlement fl v T tot = 1 / 2" if "0 < v" and "0 < T" for v T
    proof -
      from that have "0 \<le> v / T" by simp
      then have "fl 0 \<le> fl (v / T)" by (rule mono)
      then have "0 \<le> fl (v / T)" by (simp only: zero)
      moreover from False have "tot \<le> 0" by simp
      ultimately have "fl (v / T) * tot \<le> 0" by (rule mult_nonneg_nonpos)
      then have "fl (fl (v / T) * tot) \<le> fl 0" by (rule mono)
      then have "fl (fl (v / T) * tot) \<le> 0" by (simp only: zero)
      then have "fl (fl (v / T) * tot) * 2 \<le> 0" by (rule mult_nonpos_nonneg) simp
      then have "fl (fl (v / T) * tot) * 2 \<le> of_int 0" by simp
      then have "py_round (fl (fl (v / T) * tot) * 2) \<le> 0" by (rule py_round_le_int)
      then have "(of_int (py_round (fl (fl (v / T) * tot) * 2)) :: rat) / 2 \<le> 0" by simp
      then show ?thesis unfolding entitlement_form by (simp add: max_def)
    qed
    from assms(2,3) have "entitlement fl w S tot = 1 / 2" by (intro neg) simp_all
    moreover from assms(2,3) have "entitlement fl (w * 2) (S + w) tot = 1 / 2"
      by (intro neg) simp_all
    ultimately show ?thesis by simp
  qed
qed

lemma sum_list_update_rat:
  fixes xs :: "rat list"
  shows "i < length xs \<Longrightarrow> sum_list (xs[i := y]) = sum_list xs + y - xs ! i"
proof (induction xs arbitrary: i)
  case Nil
  then show ?case by simp
next
  case (Cons x xs)
  then show ?case by (cases i) simp_all
qed

lemma weight_ge_one: "1 \<le> difficulty t \<Longrightarrow> 1 \<le> weight t"
proof -
  assume "1 \<le> difficulty t"
  then have "(1::rat) \<le> of_int (difficulty t)" by simp
  then show ?thesis by (simp add: weight_def Let_def)
qed

lemma weight_priority:
  "\<not> priority t \<Longrightarrow> weight (t\<lparr>priority := True\<rparr>) = weight t * 2"
  by (simp add: weight_def Let_def)


text \<open>
  Claim C1, as stated, fails: Python's \<open>round\<close> sends a tie to the even neighbour, not
  upward. Two topics of equal weight and one study day of 2.5 hours give each topic the
  value 1.25 (every float operation is exact here), exactly halfway between 1.0 and 1.5;
  the stored entry is 1.0, where round-half-up gives 1.5.
\<close>

theorem entitlement_half_up_counterexample:
  "initial_demand binary64
      [\<lparr>name = ''A'', difficulty = 2, priority = False\<rparr>,
       \<lparr>name = ''B'', difficulty = 2, priority = False\<rparr>]
      (binary64 (of_nat (length (build_study_days 1 2 True)) * (5 / 2)))
     = Inr [(''A'', 1), (''B'', 1)]
   \<and> binary64 (binary64 (weight \<lparr>name = ''A'', difficulty = 2, priority = False\<rparr>
         / sum_list (map weight [\<lparr>name = ''A'', difficulty = 2, priority = False\<rparr>,
                                 \<lparr>name = ''B'', difficulty = 2, priority = False\<rparr>]))
       * binary64 (of_nat (length (build_study_days 1 2 True)) * (5 / 2))) = 5 / 4
   \<and> of_int (spec_round_half_up (5 / 4 * 2)) / 2 = (3 / 2 :: rat)
   \<and> (1 :: rat) \<noteq> 3 / 2"
  by code_simp

text \<open>
  Claim C1, amended. For topics with distinct names and a non-zero weight sum, the entry
  stored for a topic is \<open>n / 2\<close>, raised to 0.5 if it is below, where \<open>n\<close> is the nearest
  integer to twice the value that line 93 computes in floats, a tie going to the even
  integer. The value is the float one, not the proportional share in exact arithmetic:
  with weights 3, 6, 6, 6, 1 and 27.5 hours the share of the first topic is 3.75, a tie
  that would go to 4.0 hours, but the floats give a little less and 3.5 hours are stored.
\<close>

theorem entitlement_rounds_half_even:
  assumes "sum_list (map weight topics) \<noteq> 0"
    and "distinct (map name topics)"
    and "t \<in> set topics"
  shows "\<exists>rem n. initial_demand fl topics tot = Inr rem
           \<and> map_of rem (name t) = Some (max (1 / 2) (of_int n / 2))
           \<and> \<bar>of_int n - fl (fl (weight t / sum_list (map weight topics)) * tot) * 2\<bar>
                \<le> (1 / 2 :: rat)
           \<and> (\<bar>of_int n - fl (fl (weight t / sum_list (map weight topics)) * tot) * 2\<bar>
                = (1 / 2 :: rat) \<longrightarrow> even n)"
proof -
  from initial_demand_lookup [OF assms, where tot = tot and fl = fl] obtain rem where
    "initial_demand fl topics tot = Inr rem"
    "map_of rem (name t) = Some (entitlement fl (weight t) (sum_list (map weight topics)) tot)"
    by blast
  with entitlement_char [of fl "weight t" "sum_list (map weight topics)" tot]
  show ?thesis by metis
qed

theorem entitlement_rounds_half_even_witness:
  "sum_list (map weight
       [\<lparr>name = ''P'', difficulty = 3, priority = False\<rparr>,
        \<lparr>name = ''Q1'', difficulty = 3, priority = True\<rparr>,
        \<lparr>name = ''Q2'', difficulty = 3, priority = True\<rparr>,
        \<lparr>name = ''Q3'', difficulty = 3, priority = True\<rparr>,
        \<lparr>name = ''E'', difficulty = 1, priority = False\<rparr>]) \<noteq> 0
   \<and> distinct (map name
       [\<lparr>name = ''P'', difficulty = 3, priority = False\<rparr>,
        \<lparr>name = ''Q1'', difficulty = 3, priority = True\<rparr>,
        \<lparr>name = ''Q2'', difficulty = 3, priority = True\<rparr>,
        \<lparr>name = ''Q3'', difficulty = 3, priority = True\<rparr>,
        \<lparr>name = ''E'', difficulty = 1, priority = False\<rparr>])
   \<and> initial_demand binary64
       [\<lparr>name = ''P'', difficulty = 3, priority = False\<rparr>,
        \<lparr>name = ''Q1'', difficulty = 3, priority = True\<rparr>,
        \<lparr>name = ''Q2'', difficulty = 3, priority = True\<rparr>,
        \<lparr>name = ''Q3'', difficulty = 3, priority = True\<rparr>,
        \<lparr>name = ''E'', difficulty = 1, priority = False\<rparr>] (55 / 2)
       = Inr [(''P'', 7 / 2), (''Q1'', 15 / 2), (''Q2'', 15 / 2), (''Q3'', 15 / 2), (''E'', 1)]
   \<and> binary64 (binary64 (3 / 22) * (55 / 2)) * 2 = 15 / 2 - 1 / 2 ^ 50
   \<and> (\<exists>rem n. initial_demand binary64
       [\<lparr>name = ''P'', difficulty = 3, priority = False\<rparr>,
        \<lparr>name = ''Q1'', difficulty = 3, priority = True\<rparr>,
        \<lparr>name = ''Q2'', difficulty = 3, priority = True\<rparr>,
        \<lparr>name = ''Q3'', difficulty = 3, priority = True\<rparr>,
        \<lparr>name = ''E'', difficulty = 1, priority = False\<rparr>] (55 / 2) = Inr rem
          \<and> map_of rem ''P'' = Some (max (1 / 2) (of_int n / 2))
          \<and> \<bar>of_int n - binary64 (binary64 (weight \<lparr>name = ''P'', difficulty = 3, priority = False\<rparr>
                / sum_list (map weight
                   [\<lparr>name = ''P'', difficulty = 3, priority = False\<rparr>,
                    \<lparr>name = ''Q1'', difficulty = 3, priority = True\<rparr>,
                    \<lparr>name = ''Q2'', difficulty = 3, priority = True\<rparr>,
                    \<lparr>name = ''Q3'', difficulty = 3, priority = True\<rparr>,
                    \<lparr>name = ''E'', difficulty = 1, priority = False\<rparr>]))
                * (55 / 2)) * 2\<bar> \<le> (1 / 2 :: rat))"
proof -
  let ?P = "\<lparr>name = ''P'', difficulty = 3, priority = False\<rparr>"
  let ?ts = "[?P,
        \<lparr>name = ''Q1'', difficulty = 3, priority = True\<rparr>,
        \<lparr>name = ''Q2'', difficulty = 3, priority = True\<rparr>,
        \<lparr>name = ''Q3'', difficulty = 3, priority = True\<rparr>,
        \<lparr>name = ''E'', difficulty = 1, priority = False\<rparr>]"
  have h1: "sum_list (map weight ?ts) \<noteq> 0" by code_simp
  have h2: "distinct (map name ?ts)" by simp
  have h3: "?P \<in> set ?ts" by simp
  have e: "initial_demand binary64 ?ts (55 / 2)
       = Inr [(''P'', 7 / 2), (''Q1'', 15 / 2), (''Q2'', 15 / 2), (''Q3'', 15 / 2), (''E'', 1)]"
    by code_simp
  have v: "binary64 (binary64 (3 / 22) * (55 / 2)) * 2 = 15 / 2 - 1 / 2 ^ 50" by code_simp
  from entitlement_rounds_half_even [OF h1 h2 h3, where tot = "55 / 2" and fl = binary64]
  have "\<exists>rem n. initial_demand binary64 ?ts (55 / 2) = Inr rem
          \<and> map_of rem ''P'' = Some (max (1 / 2) (of_int n / 2))
          \<and> \<bar>of_int n - binary64 (binary64 (weight ?P / sum_list (map weight ?ts)) * (55 / 2)) * 2\<bar>
               \<le> (1 / 2 :: rat)"
    by (simp only: topic.simps) blast
  with h1 h2 e v show ?thesis by blast
qed

section \<open>Priority\<close>

text \<open>
  Claim C6, as stated, fails when two topics share a name: the demand map has one entry
  per name, written by the last topic of that name. With the topics A (hard), A (easy)
  and B (medium), two study days and 3 hours a day, the entry of A is 1.0 hour; once the
  first A is marked priority it is 0.5 hours.
\<close>

theorem priority_duplicate_name_counterexample:
  "initial_demand binary64
        [\<lparr>name = ''A'', difficulty = 3, priority = False\<rparr>,
         \<lparr>name = ''A'', difficulty = 1, priority = False\<rparr>,
         \<lparr>name = ''B'', difficulty = 2, priority = False\<rparr>]
        (binary64 (of_nat (length (build_study_days 1 3 True)) * 3))
       = Inr [(''A'', 1), (''B'', 2)]
   \<and> initial_demand binary64
        ([\<lparr>name = ''A'', difficulty = 3, priority = False\<rparr>,
          \<lparr>name = ''A'', difficulty = 1, priority = False\<rparr>,
          \<lparr>name = ''B'', difficulty = 2, priority = False\<rparr>]
           [0 := \<lparr>name = ''A'', difficulty = 3, priority = True\<rparr>])
        (binary64 (of_nat (length (build_study_days 1 3 True)) * 3))
       = Inr [(''A'', 1 / 2), (''B'', 3 / 2)]
   \<and> \<not> ((1 :: rat) \<le> 1 / 2)"
  by code_simp

text \<open>
  Claim C6, amended. Among topics of difficulty at least 1 with distinct names, marking
  one unmarked topic as priority doubles its weight, and the entry the demand map stores
  for it (after the rounding and the floor of 0.5) is at least the entry it gets
  unmarked, whatever the total of available hours. The rounding of float results enters
  only through its monotonicity; \<open>rounding_binary64\<close> proves it of \<open>binary64\<close>.
\<close>

theorem priority_doubles_weight:
  assumes fl: "rounding fl"
    and valid: "\<forall>t \<in> set topics. 1 \<le> difficulty t"
    and i: "i < length topics"
    and np: "\<not> priority (topics ! i)"
    and dist: "distinct (map name topics)"
  shows "weight ((topics ! i)\<lparr>priority := True\<rparr>) = 2 * weight (topics ! i)
       \<and> (\<exists>rem rem' e e'.
             initial_demand fl topics tot = Inr rem
           \<and> initial_demand fl (topics[i := (topics ! i)\<lparr>priority := True\<rparr>]) tot = Inr rem'
           \<and> map_of rem (name (topics ! i)) = Some e
           \<and> map_of rem' (name (topics ! i)) = Some e'
           \<and> e \<le> e')"
proof -
  let ?t = "topics ! i"
  let ?t' = "?t\<lparr>priority := True\<rparr>"
  let ?ts' = "topics[i := ?t']"
  let ?S = "sum_list (map weight topics)"
  let ?S' = "sum_list (map weight ?ts')"
  from i have mem: "?t \<in> set topics" by simp
  from i have mem': "?t' \<in> set ?ts'" by (rule set_update_memI)
  from np have w': "weight ?t' = weight ?t * 2" by (rule weight_priority)
  from valid mem have w1: "1 \<le> weight ?t" by (simp add: weight_ge_one)
  have nonneg: "\<forall>x \<in> set (map weight topics). 0 \<le> x"
  proof
    fix x assume "x \<in> set (map weight topics)"
    then obtain u where "u \<in> set topics" "x = weight u" by auto
    with valid weight_ge_one [of u] show "0 \<le> x" by simp
  qed
  from mem have "weight ?t \<in> set (map weight topics)" by simp
  with nonneg have wS: "weight ?t \<le> ?S" by (rule member_le_sum_list_rat)
  have "map weight ?ts' = (map weight topics)[i := weight ?t']" by (rule map_update)
  then have "?S' = ?S + weight ?t' - map weight topics ! i"
    using i by (simp add: sum_list_update_rat)
  with i w' have S': "?S' = ?S + weight ?t" by simp
  from w1 wS have S0: "?S \<noteq> 0" by simp
  from w1 wS S' have S'0: "?S' \<noteq> 0" by simp
  have "map name ?ts' = (map name topics)[i := name ?t']" by (rule map_update)
  with i have names: "map name ?ts' = map name topics" by (simp add: list_update_same_conv)
  with dist have dist': "distinct (map name ?ts')" by simp
  from initial_demand_lookup [OF S0 dist mem, where tot = tot and fl = fl] obtain rem where rem:
    "initial_demand fl topics tot = Inr rem"
    "map_of rem (name ?t) = Some (entitlement fl (weight ?t) ?S tot)" by blast
  from initial_demand_lookup [OF S'0 dist' mem', where tot = tot and fl = fl] obtain rem' where rem':
    "initial_demand fl ?ts' tot = Inr rem'"
    "map_of rem' (name ?t') = Some (entitlement fl (weight ?t') ?S' tot)" by blast
  from w1 have "0 < weight ?t" by simp
  from fl this wS
  have "entitlement fl (weight ?t) ?S tot \<le> entitlement fl (weight ?t * 2) (?S + weight ?t) tot"
    by (rule entitlement_priority_mono)
  with w' S' have le: "entitlement fl (weight ?t) ?S tot \<le> entitlement fl (weight ?t') ?S' tot" by simp
  from rem'(2) have "map_of rem' (name ?t) = Some (entitlement fl (weight ?t') ?S' tot)" by simp
  with rem rem'(1) le w' show ?thesis by (simp add: mult.commute)
qed

theorem priority_doubles_weight_witness:
  "weight (([\<lparr>name = ''Calculus'', difficulty = 3, priority = False\<rparr>,
             \<lparr>name = ''Biology'', difficulty = 2, priority = False\<rparr>,
             \<lparr>name = ''History'', difficulty = 1, priority = False\<rparr>] ! 0)\<lparr>priority := True\<rparr>)
     = 2 * weight ([\<lparr>name = ''Calculus'', difficulty = 3, priority = False\<rparr>,
             \<lparr>name = ''Biology'', difficulty = 2, priority = False\<rparr>,
             \<lparr>name = ''History'', difficulty = 1, priority = False\<rparr>] ! 0)
   \<and> initial_demand binary64 [\<lparr>name = ''Calculus'', difficulty = 3, priority = False\<rparr>,
             \<lparr>name = ''Biology'', difficulty = 2, priority = False\<rparr>,
             \<lparr>name = ''History'', difficulty = 1, priority = False\<rparr>] 30
       = Inr [(''Calculus'', 15), (''Biology'', 10), (''History'', 5)]
   \<and> initial_demand binary64 [\<lparr>name = ''Calculus'', difficulty = 3, priority = True\<rparr>,
             \<lparr>name = ''Biology'', difficulty = 2, priority = False\<rparr>,
             \<lparr>name = ''History'', difficulty = 1, priority = False\<rparr>] 30
       = Inr [(''Calculus'', 20), (''Biology'', 13 / 2), (''History'', 7 / 2)]"
proof -
  let ?ts = "[\<lparr>name = ''Calculus'', difficulty = 3, priority = False\<rparr>,
             \<lparr>name = ''Biology'', difficulty = 2, priority = False\<rparr>,
             \<lparr>name = ''History'', difficulty = 1, priority = False\<rparr>]"
  have h0: "rounding binary64" by (rule rounding_binary64)
  have h1: "\<forall>t \<in> set ?ts. 1 \<le> difficulty t" by simp
  have h2: "0 < length ?ts" by simp
  have h3: "\<not> priority (?ts ! 0)" by simp
  have h4: "distinct (map name ?ts)" by simp
  have e1: "initial_demand binary64 ?ts 30
       = Inr [(''Calculus'', 15), (''Biology'', 10), (''History'', 5)]"
    by code_simp
  have e2: "initial_demand binary64 [\<lparr>name = ''Calculus'', difficulty = 3, priority = True\<rparr>,
             \<lparr>name = ''Biology'', difficulty = 2, priority = False\<rparr>,
             \<lparr>name = ''History'', difficulty = 1, priority = False\<rparr>] 30
       = Inr [(''Calculus'', 20), (''Biology'', 13 / 2), (''History'', 7 / 2)]"
    by code_simp
  from priority_doubles_weight [OF h0 h1 h2 h3 h4, where tot = 30] e1 e2 show ?thesis by blast
qed

section \<open>The schedule of a whole run\<close>

































lemma loop_test_nonempty: "loop_test s \<Longrightarrow> remaining_hours s \<noteq> []"
  by (auto simp add: loop_test_def)




























end
